theory Spec2Isabelle
  imports
    Main
    "HOL-Library.Word"
    "HOL-Library.Char_ord"
    "HOL-Library.List_Lexorder"
    "HOL-Library.AList"
    "HOL-Library.Multiset"
begin

section \<open>The router of clevergo (router.go)\<close>

text \<open>
  A shallow embedding of \<^verbatim>\<open>router.go\<close>. Go strings are byte strings: \<open>string\<close> with the
  byte order of \<open>Char_ord\<close> and the lexicographic order of \<open>List_Lexorder\<close> is Go's
  \<^verbatim>\<open><\<close> on strings. A panic is a value (\<open>Inl\<close>), the router is passed explicitly and
  returned updated.
\<close>

subsection \<open>Data model\<close>

text \<open>\<^verbatim>\<open>type Param struct { Key, Value string }\<close>\<close>

record Param =
  Key :: string
  Value :: string

type_synonym addr = nat

text \<open>
  The object a \<^verbatim>\<open>*Params\<close> of the pool points to: the slice header (its length) together
  with the backing array the header refers to; the capacity is the length of \<open>arr\<close>.
  \<^verbatim>\<open>router.go\<close> only ever re-slices from index 0, so a header keeps its array for life.
\<close>

record buffer =
  arr :: "Param list"
  blen :: nat

text \<open>
  A \<^verbatim>\<open>Params\<close> value (a slice header copied out of \<^verbatim>\<open>*ps\<close>): the address of the buffer
  whose array it shares, and its own length.
\<close>

record Params =
  base :: addr
  plen :: nat

text \<open>A panic: raised by router.go itself, by the trie (tree.go), or by the Go runtime.\<close>

datatype panic = Router_panic string | Tree_panic string | Runtime_panic string

record URL =
  Path :: string
  RawQuery :: string

text \<open>
  The request: method, URL, and the two values router.go stores in the request context
  (\<^verbatim>\<open>paramsKey\<close>, \<^verbatim>\<open>routeKey\<close>).
\<close>

record 'route Request =
  Method :: string
  url :: URL
  ctx_params :: "Params option"
  ctx_route :: "'route option"

text \<open>
  The functions of the package that router.go calls and that live in other files
  (tree.go, route.go, path.go). They are parameters of the embedding.
  \<^item> \<open>getValue n path withParams\<close>: \<^verbatim>\<open>n.getValue(path, params)\<close>, where \<open>withParams\<close> says
    that \<^verbatim>\<open>params\<close> is not nil. The second component is \<open>None\<close> when the returned
    \<^verbatim>\<open>ps\<close> is nil (the getter was not called), and \<open>Some kvs\<close> when the getter was called and
    \<open>kvs\<close> were appended, in this order, to the buffer it returned.
  \<^item> \<open>addRoute n path route\<close>: \<^verbatim>\<open>n.addRoute(path, route)\<close>; \<open>Inl\<close> is a panic of the trie,
    \<open>Inr\<close> the node after the insertion.
\<close>

record ('node, 'route, 'h, 'opt) externals =
  new_node :: 'node
  addRoute :: "'node \<Rightarrow> string \<Rightarrow> 'route \<Rightarrow> string + 'node"
  getValue :: "'node \<Rightarrow> string \<Rightarrow> bool \<Rightarrow> 'route option \<times> Param list option \<times> bool"
  findCaseInsensitivePath :: "'node \<Rightarrow> string \<Rightarrow> bool \<Rightarrow> string \<times> bool"
  countParams :: "string \<Rightarrow> 16 word"
  newRoute :: "string \<Rightarrow> 'h \<Rightarrow> 'opt list \<Rightarrow> 'route"
  route_name :: "'route \<Rightarrow> string"
  CleanPath :: "string \<Rightarrow> string"

text \<open>
  \<^verbatim>\<open>type Router struct\<close>. \<open>trees\<close> is the map \<^verbatim>\<open>map[string]*node\<close> as an association list
  with distinct keys; the order of the list stands for the order in which \<^verbatim>\<open>range r.trees\<close>
  yields the keys, which Go leaves unspecified. \<open>pool_New\<close> says that
  \<^verbatim>\<open>paramsPool.New\<close> is set, \<open>pool_items\<close> are the pointers currently in the pool.
  \<open>mem\<close> and \<open>next_addr\<close> are not fields of the Go struct: they are the part of the heap
  that holds the buffers allocated by \<^verbatim>\<open>paramsPool.New\<close>, threaded with the router so that
  the sharing between the pool and the request contexts is explicit.
\<close>

record ('node, 'route, 'h) Router =
  trees :: "(string \<times> 'node) list"
  routes :: "string \<rightharpoonup> 'route"
  pool_New :: bool
  pool_items :: "addr list"
  maxParams :: "16 word"
  SaveMatchedRoute :: bool
  RedirectTrailingSlash :: bool
  RedirectFixedPath :: bool
  HandleMethodNotAllowed :: bool
  HandleOPTIONS :: bool
  GlobalOPTIONS :: "'h option"
  globalAllowed :: string
  NotFound :: "'h option"
  MethodNotAllowed :: "'h option"
  mem :: "addr \<Rightarrow> buffer"
  next_addr :: addr

text \<open>What \<^verbatim>\<open>ServeHTTP\<close> does with the response writer.\<close>

datatype ('route, 'h) Response =
    Route_ServeHTTP 'route "'route Request"
  | http_Redirect URL nat
  | OPTIONS_reply string "'h option"
  | MethodNotAllowed_ServeHTTP string 'h
  | http_Error string string nat
  | NotFound_ServeHTTP 'h
  | http_NotFound

subsection \<open>Constants of net/http\<close>

definition MethodGet :: string where "MethodGet = ''GET''"
definition MethodOptions :: string where "MethodOptions = ''OPTIONS''"
definition MethodConnect :: string where "MethodConnect = ''CONNECT''"

definition StatusMovedPermanently :: nat where "StatusMovedPermanently = 301"
definition StatusPermanentRedirect :: nat where "StatusPermanentRedirect = 308"
definition StatusMethodNotAllowed :: nat where "StatusMethodNotAllowed = 405"

text \<open>\<^verbatim>\<open>http.StatusText(http.StatusMethodNotAllowed)\<close>\<close>

definition StatusText_MethodNotAllowed :: string where
  "StatusText_MethodNotAllowed = ''Method Not Allowed''"

text \<open>\<^verbatim>\<open>strings.Join(elems, sep)\<close>\<close>

fun strings_Join :: "string list \<Rightarrow> string \<Rightarrow> string" where
  "strings_Join [] sep = []"
| "strings_Join [x] sep = x"
| "strings_Join (x # y # ys) sep = x @ sep @ strings_Join (y # ys) sep"

subsection \<open>NewRouter\<close>

definition NewRouter :: "('node, 'route, 'h) Router" where
  "NewRouter = \<lparr>
     trees = [], routes = Map.empty, pool_New = False, pool_items = [], maxParams = 0,
     SaveMatchedRoute = False,
     RedirectTrailingSlash = True, RedirectFixedPath = True,
     HandleMethodNotAllowed = True, HandleOPTIONS = True,
     GlobalOPTIONS = None, globalAllowed = [], NotFound = None, MethodNotAllowed = None,
     mem = (\<lambda>_. \<lparr>arr = [], blen = 0\<rparr>), next_addr = 0 \<rparr>"

subsection \<open>Params.Get\<close>

text \<open>The elements a \<^verbatim>\<open>Params\<close> value shows: the first \<open>plen\<close> cells of the shared array.\<close>

definition elems :: "(addr \<Rightarrow> buffer) \<Rightarrow> Params \<Rightarrow> Param list" where
  "elems m ps = take (plen ps) (arr (m (base ps)))"

fun Params_Get :: "Param list \<Rightarrow> string \<Rightarrow> string" where
  "Params_Get [] name = []"
| "Params_Get (p # ps) name = (if Key p = name then Value p else Params_Get ps name)"

subsection \<open>The parameter pool: getParams, putParams\<close>

text \<open>
  \<^verbatim>\<open>sync.Pool.Get\<close> takes an arbitrary item out of the pool, or calls \<^verbatim>\<open>New\<close> when it finds
  none, or returns nil when \<^verbatim>\<open>New\<close> is nil. The choice is the argument \<open>pick\<close>: \<open>Some i\<close>
  takes item \<open>i\<close>, anything else finds none. \<^verbatim>\<open>New\<close> is the closure set by \<^verbatim>\<open>Handle\<close>:
  \<^verbatim>\<open>ps := make(Params, 0, r.maxParams); return &ps\<close>.
\<close>

definition zero_Param :: Param where
  "zero_Param = \<lparr>Key = [], Value = []\<rparr>"

definition pool_Get ::
  "nat option \<Rightarrow> ('node, 'route, 'h) Router \<Rightarrow> addr option \<times> ('node, 'route, 'h) Router" where
  "pool_Get pick r =
     (case (case pick of Some i \<Rightarrow> if i < length (pool_items r) then Some i else None
                       | None \<Rightarrow> None) of
        Some i \<Rightarrow>
          (Some (pool_items r ! i),
           r\<lparr>pool_items := take i (pool_items r) @ drop (Suc i) (pool_items r)\<rparr>)
      | None \<Rightarrow>
          if pool_New r then
            (Some (next_addr r),
             r\<lparr>mem := (mem r)(next_addr r :=
                    \<lparr>arr = replicate (unat (maxParams r)) zero_Param, blen = 0\<rparr>),
               next_addr := Suc (next_addr r)\<rparr>)
          else (None, r))"

text \<open>
  \<^verbatim>\<open>ps := r.paramsPool.Get().(*Params); *ps = (*ps)[0:0]; return ps\<close>. The type assertion
  panics on a nil interface.
\<close>

definition getParams ::
  "nat option \<Rightarrow> ('node, 'route, 'h) Router \<Rightarrow> panic + addr \<times> ('node, 'route, 'h) Router" where
  "getParams pick r =
     (case pool_Get pick r of
        (None, r') \<Rightarrow>
          Inl (Runtime_panic ''interface conversion: interface {} is nil, not *clevergo.Params'')
      | (Some ps, r') \<Rightarrow> Inr (ps, r'\<lparr>mem := (mem r')(ps := (mem r' ps)\<lparr>blen := 0\<rparr>)\<rparr>))"

definition putParams :: "('node, 'route, 'h) Router \<Rightarrow> addr \<Rightarrow> ('node, 'route, 'h) Router" where
  "putParams r ps = r\<lparr>pool_items := ps # pool_items r\<rparr>"

subsection \<open>allowed\<close>

text \<open>
  The sort of lines 364-368:
  \<^verbatim>\<open>for i, l := 1, len(allowed); i < l; i++ {
       for j := i; j > 0 && allowed[j] < allowed[j-1]; j-- {
         allowed[j], allowed[j-1] = allowed[j-1], allowed[j] } }\<close>
  Every index read is below \<open>l\<close>.
\<close>

fun sort_inner :: "string list \<Rightarrow> nat \<Rightarrow> string list" where
  "sort_inner a 0 = a"
| "sort_inner a (Suc j) =
     (if a ! Suc j < a ! j then sort_inner (a[Suc j := a ! j, j := a ! Suc j]) j else a)"

function sort_outer :: "string list \<Rightarrow> nat \<Rightarrow> nat \<Rightarrow> string list" where
  "sort_outer a i l = (if i < l then sort_outer (sort_inner a i) (Suc i) l else a)"
  by pat_completeness auto
termination
  by (relation "measure (\<lambda>(a, i, l). l - i)") auto

declare sort_outer.simps [simp del]

text \<open>Lines 357-373: append OPTIONS, sort, join; the empty string when nothing is allowed.\<close>

definition allowed_finish :: "string list \<Rightarrow> string" where
  "allowed_finish al =
     (if length al > 0 then
        (let al1 = al @ [MethodOptions]
         in strings_Join (sort_outer al1 1 (length al1)) '', '')
      else [])"

text \<open>Lines 332-338: the loop over the methods of \<open>r.trees\<close> for the path \<open>*\<close>.\<close>

fun allowed_global_loop :: "string list \<Rightarrow> string list \<Rightarrow> string list" where
  "allowed_global_loop [] al = al"
| "allowed_global_loop (method # ms) al =
     (if method = MethodOptions then allowed_global_loop ms al
      else allowed_global_loop ms (al @ [method]))"

text \<open>
  Lines 343-354: the loop over the methods of \<open>r.trees\<close> for a specific path; each trie
  is read as \<^verbatim>\<open>r.trees[method]\<close> and probed with \<^verbatim>\<open>getValue(path, nil)\<close>. A key that
  \<^verbatim>\<open>range\<close> yields is in the map, so the branch for a missing trie is never taken.
\<close>

fun allowed_path_loop ::
  "('node, 'route, 'h, 'opt) externals \<Rightarrow> (string \<times> 'node) list \<Rightarrow> string \<Rightarrow> string \<Rightarrow>
   string list \<Rightarrow> string list \<Rightarrow> string list" where
  "allowed_path_loop X ts path reqMethod [] al = al"
| "allowed_path_loop X ts path reqMethod (method # ms) al =
     (if method = reqMethod \<or> method = MethodOptions
      then allowed_path_loop X ts path reqMethod ms al
      else (case map_of ts method of
              None \<Rightarrow> allowed_path_loop X ts path reqMethod ms al
            | Some n \<Rightarrow>
                (case getValue X n path False of
                   (Some handle, _, _) \<Rightarrow> allowed_path_loop X ts path reqMethod ms (al @ [method])
                 | (None, _, _) \<Rightarrow> allowed_path_loop X ts path reqMethod ms al)))"

definition allowed ::
  "('node, 'route, 'h, 'opt) externals \<Rightarrow> ('node, 'route, 'h) Router \<Rightarrow> string \<Rightarrow> string \<Rightarrow> string" where
  "allowed X r path reqMethod =
     (if path = ''*'' then
        (if reqMethod = [] then
           allowed_finish (allowed_global_loop (map fst (trees r)) [])
         else globalAllowed r)
      else allowed_finish (allowed_path_loop X (trees r) path reqMethod (map fst (trees r)) []))"

subsection \<open>Lookup in a trie with the pool's getter\<close>

text \<open>
  Modelled from the spec: \<^verbatim>\<open>node.getValue\<close> (tree.go) is not part of the sources read
  here. The spec says that the matcher appends one (name, value) pair per wildcard segment
  to the output Params, that the buffer comes from the pool and is reset to empty length
  before use, and that the pool's buffers are sized to the maximum wildcard count. So
  \<^verbatim>\<open>root.getValue(path, r.getParams)\<close> is: when the trie reports parameters, one call of
  \<open>getParams\<close>, then for each pair \<^verbatim>\<open>i := len(*ps); *ps = (*ps)[:i+1]; (*ps)[i] = p\<close>,
  which panics beyond the capacity.
\<close>

definition append_Param :: "buffer \<Rightarrow> Param \<Rightarrow> panic + buffer" where
  "append_Param b p =
     (let i = blen b
      in if i + 1 \<le> length (arr b) then Inr \<lparr>arr = (arr b)[i := p], blen = i + 1\<rparr>
         else Inl (Runtime_panic ''slice bounds out of range''))"

fun append_Params :: "buffer \<Rightarrow> Param list \<Rightarrow> panic + buffer" where
  "append_Params b [] = Inr b"
| "append_Params b (p # ps) =
     (case append_Param b p of Inl e \<Rightarrow> Inl e | Inr b' \<Rightarrow> append_Params b' ps)"

definition getValue_pooled ::
  "('node, 'route, 'h, 'opt) externals \<Rightarrow> nat option \<Rightarrow> ('node, 'route, 'h) Router \<Rightarrow>
   'node \<Rightarrow> string \<Rightarrow>
   panic + ('route option \<times> addr option \<times> bool) \<times> ('node, 'route, 'h) Router" where
  "getValue_pooled X pick r root path =
     (case getValue X root path True of
        (route, None, tsr) \<Rightarrow> Inr ((route, None, tsr), r)
      | (route, Some kvs, tsr) \<Rightarrow>
          (case getParams pick r of
             Inl e \<Rightarrow> Inl e
           | Inr (ps, r1) \<Rightarrow>
               (case append_Params (mem r1 ps) kvs of
                  Inl e \<Rightarrow> Inl e
                | Inr b \<Rightarrow> Inr ((route, Some ps, tsr), r1\<lparr>mem := (mem r1)(ps := b)\<rparr>))))"

subsection \<open>Lookup\<close>

text \<open>
  The second component of the result is \<open>None\<close> for a nil \<^verbatim>\<open>Params\<close>, and \<open>Some\<close> of the
  slice header \<^verbatim>\<open>*ps\<close> otherwise.
\<close>

definition Lookup ::
  "('node, 'route, 'h, 'opt) externals \<Rightarrow> nat option \<Rightarrow> ('node, 'route, 'h) Router \<Rightarrow>
   string \<Rightarrow> string \<Rightarrow>
   panic + ('route option \<times> Params option \<times> bool) \<times> ('node, 'route, 'h) Router" where
  "Lookup X pick r method path =
     (case map_of (trees r) method of
        Some root \<Rightarrow>
          (case getValue_pooled X pick r root path of
             Inl e \<Rightarrow> Inl e
           | Inr ((route, ps, tsr), r1) \<Rightarrow>
               (case route of
                  None \<Rightarrow> Inr ((None, None, tsr), r1)
                | Some rt \<Rightarrow>
                    (case ps of
                       None \<Rightarrow> Inr ((Some rt, None, tsr), r1)
                     | Some a \<Rightarrow>
                         Inr ((Some rt, Some \<lparr>base = a, plen = blen (mem r1 a)\<rparr>, tsr), r1))))
      | None \<Rightarrow> Inr ((None, None, False), r))"

subsection \<open>ServeHTTP\<close>

text \<open>Lines 450-455: the 404 policy.\<close>

definition ServeHTTP_404 :: "('node, 'route, 'h) Router \<Rightarrow> ('route, 'h) Response" where
  "ServeHTTP_404 r = (case NotFound r of Some h \<Rightarrow> NotFound_ServeHTTP h | None \<Rightarrow> http_NotFound)"

text \<open>
  Lines 426-455: what \<^verbatim>\<open>ServeHTTP\<close> does when it has neither called a route's handler nor
  redirected. \<open>http_Error allow body code\<close> is the Allow header followed by
  \<^verbatim>\<open>http.Error(w, body, code)\<close>.
\<close>

definition ServeHTTP_unrouted ::
  "('node, 'route, 'h, 'opt) externals \<Rightarrow> ('node, 'route, 'h) Router \<Rightarrow> 'route Request \<Rightarrow>
   ('route, 'h) Response" where
  "ServeHTTP_unrouted X r req =
     (let path = Path (url req)
      in if Method req = MethodOptions \<and> HandleOPTIONS r then
           (let allow = allowed X r path MethodOptions
            in if allow \<noteq> [] then OPTIONS_reply allow (GlobalOPTIONS r)
               else ServeHTTP_404 r)
         else if HandleMethodNotAllowed r then
           (let allow = allowed X r path (Method req)
            in if allow \<noteq> [] then
                 (case MethodNotAllowed r of
                    Some h \<Rightarrow> MethodNotAllowed_ServeHTTP allow h
                  | None \<Rightarrow> http_Error allow StatusText_MethodNotAllowed StatusMethodNotAllowed)
               else ServeHTTP_404 r)
         else ServeHTTP_404 r)"

text \<open>Lines 402-406: the path with its trailing slash toggled.\<close>

definition toggle_slash :: "string \<Rightarrow> string" where
  "toggle_slash path =
     (if length path > 1 \<and> last path = CHR ''/'' then butlast path else path @ ''/'')"

text \<open>
  \<open>http_Redirect u code\<close> is \<^verbatim>\<open>http.Redirect(w, req, req.URL.String(), code)\<close> with \<open>u\<close> the
  request's URL after the assignment to \<^verbatim>\<open>req.URL.Path\<close>.
\<close>

definition ServeHTTP ::
  "('node, 'route, 'h, 'opt) externals \<Rightarrow> nat option \<Rightarrow> ('node, 'route, 'h) Router \<Rightarrow>
   'route Request \<Rightarrow> panic + ('route, 'h) Response \<times> ('node, 'route, 'h) Router" where
  "ServeHTTP X pick r req =
     (let path = Path (url req)
      in case map_of (trees r) (Method req) of
           None \<Rightarrow> Inr (ServeHTTP_unrouted X r req, r)
         | Some root \<Rightarrow>
             (case getValue_pooled X pick r root path of
                Inl e \<Rightarrow> Inl e
              | Inr ((Some route, ps, tsr), r1) \<Rightarrow>
                  (let (req1, r2) =
                         (case ps of
                            Some a \<Rightarrow>
                              (req\<lparr>ctx_params := Some \<lparr>base = a, plen = blen (mem r1 a)\<rparr>\<rparr>,
                               putParams r1 a)
                          | None \<Rightarrow> (req, r1));
                       req2 = (if SaveMatchedRoute r2 then req1\<lparr>ctx_route := Some route\<rparr>
                               else req1)
                   in Inr (Route_ServeHTTP route req2, r2))
              | Inr ((None, ps, tsr), r1) \<Rightarrow>
                  if Method req \<noteq> MethodConnect \<and> path \<noteq> ''/'' then
                    (let code = (if Method req \<noteq> MethodGet then StatusPermanentRedirect
                                 else StatusMovedPermanently)
                     in if tsr \<and> RedirectTrailingSlash r1 then
                          Inr (http_Redirect ((url req)\<lparr>Path := toggle_slash path\<rparr>) code, r1)
                        else if RedirectFixedPath r1 then
                          (case findCaseInsensitivePath X root (CleanPath X path)
                                  (RedirectTrailingSlash r1) of
                             (fixedPath, True) \<Rightarrow>
                               Inr (http_Redirect ((url req)\<lparr>Path := fixedPath\<rparr>) code, r1)
                           | (fixedPath, False) \<Rightarrow> Inr (ServeHTTP_unrouted X r1 req, r1))
                        else Inr (ServeHTTP_unrouted X r1 req, r1))
                  else Inr (ServeHTTP_unrouted X r1 req, r1)))"

subsection \<open>Handle, HandleFunc\<close>

text \<open>
  \<^verbatim>\<open>root\<close> is a pointer into \<open>r.trees\<close>: what \<^verbatim>\<open>addRoute\<close> does to the node is written
  back under the method's key.
\<close>

definition Handle ::
  "('node, 'route, 'h, 'opt) externals \<Rightarrow> ('node, 'route, 'h) Router \<Rightarrow> string \<Rightarrow> string \<Rightarrow>
   'h \<Rightarrow> 'opt list \<Rightarrow> panic + ('node, 'route, 'h) Router" where
  "Handle X r method path handler opts =
     (if method = [] then Inl (Router_panic ''method must not be empty'')
      else if length path < 1 \<or> hd path \<noteq> CHR ''/'' then
        Inl (Router_panic (''path must begin with '' @ [CHR 0x27] @ ''/'' @ [CHR 0x27] @
                           '' in path '' @ [CHR 0x27] @ path @ [CHR 0x27]))
      else
        (let (root, r1) =
               (case map_of (trees r) method of
                  None \<Rightarrow>
                    (let r' = r\<lparr>trees := AList.update method (new_node X) (trees r)\<rparr>
                     in (new_node X, r'\<lparr>globalAllowed := allowed X r' ''*'' []\<rparr>))
                | Some root \<Rightarrow> (root, r));
             route = newRoute X path handler opts
         in case (if route_name X route \<noteq> [] then
                    (if route_name X route \<in> dom (routes r1) then
                       Inl (Router_panic (''route name '' @ route_name X route @
                                          '' is already registered''))
                     else Inr (r1\<lparr>routes := (routes r1)(route_name X route \<mapsto> route)\<rparr>))
                  else Inr r1) of
              Inl e \<Rightarrow> Inl e
            | Inr r2 \<Rightarrow>
                (case addRoute X root path route of
                   Inl e \<Rightarrow> Inl (Tree_panic e)
                 | Inr root' \<Rightarrow>
                     (let r3 = r2\<lparr>trees := AList.update method root' (trees r2)\<rparr>;
                          pc = countParams X path;
                          r4 = (if pc > maxParams r3 then r3\<lparr>maxParams := pc\<rparr> else r3);
                          r5 = (if \<not> pool_New r4 \<and> maxParams r4 > 0
                                then r4\<lparr>pool_New := True\<rparr> else r4)
                      in Inr r5))))"

text \<open>\<open>handle\<close> is \<open>None\<close> for a nil \<^verbatim>\<open>http.HandlerFunc\<close>.\<close>

definition HandleFunc ::
  "('node, 'route, 'h, 'opt) externals \<Rightarrow> ('node, 'route, 'h) Router \<Rightarrow> string \<Rightarrow> string \<Rightarrow>
   'h option \<Rightarrow> 'opt list \<Rightarrow> panic + ('node, 'route, 'h) Router" where
  "HandleFunc X r method path handle opts =
     (case handle of
        None \<Rightarrow> Inl (Router_panic ''handle must not be nil'')
      | Some h \<Rightarrow> Handle X r method path h opts)"

text \<open>A sequence of registrations, stopped by the first panic.\<close>

fun Handle_all ::
  "('node, 'route, 'h, 'opt) externals \<Rightarrow> ('node, 'route, 'h) Router \<Rightarrow>
   (string \<times> string \<times> 'h \<times> 'opt list) list \<Rightarrow> panic + ('node, 'route, 'h) Router" where
  "Handle_all X r [] = Inr r"
| "Handle_all X r ((method, path, handler, opts) # regs) =
     (case Handle X r method path handler opts of
        Inl e \<Rightarrow> Inl e
      | Inr r' \<Rightarrow> Handle_all X r' regs)"

subsection \<open>What the spec says about the Allow header\<close>

text \<open>
  The spec's words for the header value: the allowed methods, with OPTIONS added when there
  is at least one, ascending, joined by comma and space; the empty string when there is
  none. Stated on the set of methods, so that no iteration order enters.
\<close>

definition spec_Allow :: "string set \<Rightarrow> string" where
  "spec_Allow S =
     (if S = {} then [] else strings_Join (sorted_list_of_set (insert MethodOptions S)) '', '')"

text \<open>The spec's probe: the method has a trie whose exact lookup of the path yields a handler.\<close>

definition spec_probe ::
  "('node, 'route, 'h, 'opt) externals \<Rightarrow> ('node, 'route, 'h) Router \<Rightarrow> string \<Rightarrow> string \<Rightarrow> bool" where
  "spec_probe X r path method =
     (case map_of (trees r) method of
        None \<Rightarrow> False
      | Some n \<Rightarrow> fst (getValue X n path False) \<noteq> None)"

text \<open>
  Two router states that differ at most in the pool and in the buffers: the tries, the
  named routes and every setting are the same.
\<close>

definition same_routing ::
  "('node, 'route, 'h) Router \<Rightarrow> ('node, 'route, 'h) Router \<Rightarrow> bool" where
  "same_routing r r1 \<longleftrightarrow>
     trees r1 = trees r \<and> routes r1 = routes r \<and> pool_New r1 = pool_New r \<and>
     maxParams r1 = maxParams r \<and> SaveMatchedRoute r1 = SaveMatchedRoute r \<and>
     RedirectTrailingSlash r1 = RedirectTrailingSlash r \<and>
     RedirectFixedPath r1 = RedirectFixedPath r \<and>
     HandleMethodNotAllowed r1 = HandleMethodNotAllowed r \<and>
     HandleOPTIONS r1 = HandleOPTIONS r \<and> GlobalOPTIONS r1 = GlobalOPTIONS r \<and>
     globalAllowed r1 = globalAllowed r \<and> NotFound r1 = NotFound r \<and>
     MethodNotAllowed r1 = MethodNotAllowed r"

subsection \<open>A reference matcher\<close>

text \<open>
  Modelled from the spec: tree.go, route.go and path.go are not among the sources read
  here. For running the router on concrete requests, a matcher over the list of the
  patterns registered in a node stands for them. It follows sections 4.1 to 4.4 of the
  spec, pattern by pattern instead of node by node:
  \<^item> the bytes of a pattern are required literally; when the remaining path is empty the
    pattern matches iff it is used up as well;
  \<^item> a segment \<^verbatim>\<open>:name\<close> consumes the bytes up to, not including, the next \<^verbatim>\<open>/\<close> and
    appends (name, value) to the output Params;
  \<^item> a catch-all \<^verbatim>\<open>*name\<close> consumes the entire remaining path; for \<^verbatim>\<open>/*name\<close> the value
    starts at the byte that follows the static part (section 8), the slash included;
  \<^item> the output Params come from the pool. \<^verbatim>\<open>Handle\<close> gives the pool its \<^verbatim>\<open>New\<close> only
    once a pattern with a wildcard is registered (lines 270-281), so the getter can be
    asked for a buffer at a wildcard segment only: the parameters of a match are \<open>None\<close>
    until the first wildcard segment is consumed;
  \<^item> the trailing-slash hint is taken at the point of failure: the pattern is used up and
    the remaining path is exactly \<^verbatim>\<open>/\<close>, or the path is used up and appending \<^verbatim>\<open>/\<close> to
    it lands on the end of the pattern;
  \<^item> the case-insensitive walk compares static bytes case-insensitively, answers with
    the registered casing and copies the values of wildcards as they are;
  \<^item> a registration fails on a duplicate, on a wildcard that meets another wildcard or
    a static byte of a registered pattern at the same position, and on a catch-all that
    is not the last segment. The errors carry the names of section 6.
  A route has a name when a \<open>RouteName\<close> option gives one.
\<close>

record 'h Route =
  rt_path :: string
  rt_handler :: 'h
  rt_name :: string

datatype RouteOption = RouteName string

fun ref_route_name :: "string \<Rightarrow> RouteOption list \<Rightarrow> string" where
  "ref_route_name nm [] = nm"
| "ref_route_name nm (RouteName n # opts) = ref_route_name n opts"

definition ref_newRoute :: "string \<Rightarrow> 'h \<Rightarrow> RouteOption list \<Rightarrow> 'h Route" where
  "ref_newRoute p h opts = \<lparr>rt_path = p, rt_handler = h, rt_name = ref_route_name [] opts\<rparr>"

definition to_lower :: "char \<Rightarrow> char" where
  "to_lower c =
     (case map_of (zip ''ABCDEFGHIJKLMNOPQRSTUVWXYZ'' ''abcdefghijklmnopqrstuvwxyz'') c of
        Some d \<Rightarrow> d
      | None \<Rightarrow> c)"

text \<open>
  The outcome of matching one pattern: \<open>Hit out ps\<close> with the path as the pattern spells it
  and the parameters (\<open>None\<close> when no buffer was asked for), or \<open>Miss t\<close>, where \<open>t\<close> is the
  path with its trailing slash toggled, as the pattern spells it, when the hint holds.
\<close>

datatype ref_outcome = Hit string "Param list option" | Miss "string option"

definition is_wildcard :: "char \<Rightarrow> bool" where
  "is_wildcard c \<longleftrightarrow> c = CHR '':'' \<or> c = CHR ''*''"

definition segment :: "string \<Rightarrow> string" where
  "segment s = takeWhile (\<lambda>c. c \<noteq> CHR ''/'') s"

definition after_segment :: "string \<Rightarrow> string" where
  "after_segment s = dropWhile (\<lambda>c. c \<noteq> CHR ''/'') s"

definition params_of :: "Param list option \<Rightarrow> Param list" where
  "params_of ps = (case ps of None \<Rightarrow> [] | Some l \<Rightarrow> l)"

text \<open>\<open>ref_match ci pattern path\<close>; \<open>ci\<close> asks for the case-insensitive comparison.\<close>

function ref_match :: "bool \<Rightarrow> string \<Rightarrow> string \<Rightarrow> ref_outcome" where
  "ref_match ci [] [] = Hit [] None"
| "ref_match ci [] (c # cs) = Miss (if c = CHR ''/'' \<and> cs = [] then Some [] else None)"
| "ref_match ci (p # ps) [] =
     Miss (if p = CHR ''/'' \<and> (ps = [] \<or> hd ps = CHR ''*'') then Some ''/'' else None)"
| "ref_match ci (p # ps) (c # cs) =
     (if p = CHR '':'' then
        (case ref_match ci (after_segment ps) (after_segment (c # cs)) of
           Hit out kvs \<Rightarrow>
             Hit (segment (c # cs) @ out)
               (Some (\<lparr>Key = segment ps, Value = segment (c # cs)\<rparr> # params_of kvs))
         | Miss t \<Rightarrow> Miss (map_option (\<lambda>out. segment (c # cs) @ out) t))
      else if p = CHR ''*'' then Hit (c # cs) (Some [\<lparr>Key = ps, Value = c # cs\<rparr>])
      else if p = CHR ''/'' \<and> ps \<noteq> [] \<and> hd ps = CHR ''*'' then
        (if c = CHR ''/'' then Hit (c # cs) (Some [\<lparr>Key = tl ps, Value = c # cs\<rparr>])
         else Miss None)
      else if p = c \<or> (ci \<and> to_lower p = to_lower c) then
        (case ref_match ci ps cs of
           Hit out kvs \<Rightarrow> Hit (p # out) kvs
         | Miss t \<Rightarrow> Miss (map_option (\<lambda>out. p # out) t))
      else Miss None)"
  by pat_completeness auto
termination
  by (relation "measure (\<lambda>(ci, ps, path). length ps)")
     (auto simp: less_Suc_eq_le length_dropWhile_le after_segment_def)

declare ref_match.simps [simp del]

text \<open>The first pattern of the node that matches, with its route.\<close>

fun ref_find ::
  "bool \<Rightarrow> (string \<times> 'r) list \<Rightarrow> string \<Rightarrow> (string \<times> 'r \<times> string \<times> Param list option) option" where
  "ref_find ci [] path = None"
| "ref_find ci ((pat, route) # n) path =
     (case ref_match ci pat path of
        Hit out kvs \<Rightarrow> Some (pat, route, out, kvs)
      | Miss t \<Rightarrow> ref_find ci n path)"

text \<open>The first pattern of the node for which the hint holds, as the toggled path.\<close>

fun ref_tsr :: "bool \<Rightarrow> (string \<times> 'r) list \<Rightarrow> string \<Rightarrow> string option" where
  "ref_tsr ci [] path = None"
| "ref_tsr ci ((pat, route) # n) path =
     (case ref_match ci pat path of
        Miss (Some t) \<Rightarrow> Some t
      | Miss None \<Rightarrow> ref_tsr ci n path
      | Hit out kvs \<Rightarrow> ref_tsr ci n path)"

definition ref_getValue ::
  "(string \<times> 'r) list \<Rightarrow> string \<Rightarrow> bool \<Rightarrow> 'r option \<times> Param list option \<times> bool" where
  "ref_getValue n path withParams =
     (case ref_find False n path of
        Some (pat, route, out, kvs) \<Rightarrow> (Some route, if withParams then kvs else None, False)
      | None \<Rightarrow> (None, None, ref_tsr False n path \<noteq> None))"

definition ref_findCaseInsensitivePath ::
  "(string \<times> 'r) list \<Rightarrow> string \<Rightarrow> bool \<Rightarrow> string \<times> bool" where
  "ref_findCaseInsensitivePath n path fixTrailingSlash =
     (case ref_find True n path of
        Some (pat, route, out, kvs) \<Rightarrow> (out, True)
      | None \<Rightarrow>
          if fixTrailingSlash then
            (case ref_tsr True n path of
               Some t \<Rightarrow> (t, True)
             | None \<Rightarrow> ([], False))
          else ([], False))"

text \<open>
  \<open>ref_conflict new old\<close>: the error, if any, of registering the pattern \<open>new\<close> beside the
  registered pattern \<open>old\<close>.
\<close>

function ref_conflict :: "string \<Rightarrow> string \<Rightarrow> string option" where
  "ref_conflict [] [] = Some ''DuplicateRoute''"
| "ref_conflict [] (e # es) = None"
| "ref_conflict (p # ps) [] = None"
| "ref_conflict (p # ps) (e # es) =
     (if is_wildcard p \<and> is_wildcard e then
        (if p = e \<and> segment ps = segment es
         then ref_conflict (after_segment ps) (after_segment es)
         else Some ''WildcardConflict'')
      else if is_wildcard e then Some ''WildcardConflict''
      else if is_wildcard p then Some ''AmbiguousBranch''
      else if p = e then ref_conflict ps es
      else None)"
  by pat_completeness auto
termination
  by (relation "measure (\<lambda>(ps, es). length ps)")
     (auto simp: less_Suc_eq_le length_dropWhile_le after_segment_def)

declare ref_conflict.simps [simp del]

fun ref_conflicts :: "string \<Rightarrow> (string \<times> 'r) list \<Rightarrow> string option" where
  "ref_conflicts p [] = None"
| "ref_conflicts p ((pat, route) # n) =
     (case ref_conflict p pat of Some e \<Rightarrow> Some e | None \<Rightarrow> ref_conflicts p n)"

definition ref_addRoute ::
  "(string \<times> 'r) list \<Rightarrow> string \<Rightarrow> 'r \<Rightarrow> string + (string \<times> 'r) list" where
  "ref_addRoute n p route =
     (if CHR ''/'' \<in> set (dropWhile (\<lambda>c. c \<noteq> CHR ''*'') p) then Inl ''InvalidCatchAllPosition''
      else (case ref_conflicts p n of
              Some e \<Rightarrow> Inl e
            | None \<Rightarrow> Inr (n @ [(p, route)])))"

definition ref_countParams :: "string \<Rightarrow> 16 word" where
  "ref_countParams p = of_nat (length (filter is_wildcard p))"

text \<open>
  Section 4.4: the path is cut at its slashes, empty and \<^verbatim>\<open>.\<close> elements are dropped,
  \<^verbatim>\<open>..\<close> drops the element before it, the result begins with \<^verbatim>\<open>/\<close>, and a slash that
  ends the input is kept unless nothing but the root is left.
\<close>

fun split_slash :: "string \<Rightarrow> string \<Rightarrow> string list" where
  "split_slash [] cur = [cur]"
| "split_slash (c # cs) cur =
     (if c = CHR ''/'' then cur # split_slash cs [] else split_slash cs (cur @ [c]))"

fun clean_elements :: "string list \<Rightarrow> string list \<Rightarrow> string list" where
  "clean_elements [] kept = rev kept"
| "clean_elements (e # es) kept =
     (if e = [] \<or> e = ''.'' then clean_elements es kept
      else if e = ''..'' then clean_elements es (tl kept)
      else clean_elements es (e # kept))"

definition ref_CleanPath :: "string \<Rightarrow> string" where
  "ref_CleanPath p =
     (let es = clean_elements (split_slash p []) []
      in if es = [] then ''/''
         else concat (map (\<lambda>e. CHR ''/'' # e) es) @
              (if p \<noteq> [] \<and> last p = CHR ''/'' then ''/'' else []))"


definition ref_impl :: "((string \<times> 'h Route) list, 'h Route, 'h, RouteOption) externals" where
  "ref_impl = \<lparr>
     new_node = [],
     addRoute = ref_addRoute,
     getValue = ref_getValue,
     findCaseInsensitivePath = ref_findCaseInsensitivePath,
     countParams = ref_countParams,
     newRoute = ref_newRoute,
     route_name = rt_name,
     CleanPath = ref_CleanPath \<rparr>"

subsection \<open>A concrete router and concrete requests\<close>

type_synonym ex_Router = "((string \<times> string Route) list, string Route, string) Router"

definition ex_registrations :: "(string \<times> string \<times> string \<times> RouteOption list) list" where
  "ex_registrations =
     [(''GET'', ''/users/:id'', ''showUser'', []),
      (''POST'', ''/users/:id'', ''saveUser'', []),
      (''GET'', ''/Foo'', ''foo'', [RouteName ''foo'']),
      (''CONNECT'', ''/Tunnel'', ''tunnel'', [])]"

definition ex_router :: ex_Router where
  "ex_router = projr (Handle_all ref_impl NewRouter ex_registrations)"

definition ex_request :: "string \<Rightarrow> string \<Rightarrow> string Route Request" where
  "ex_request method path =
     \<lparr>Method = method, url = \<lparr>Path = path, RawQuery = []\<rparr>,
      ctx_params = None, ctx_route = None\<rparr>"



text \<open>The router after it has served \<^verbatim>\<open>GET /users/alice\<close> with a fresh buffer.\<close>

definition ex_router_after_alice :: ex_Router where
  "ex_router_after_alice =
     snd (projr (ServeHTTP ref_impl None ex_router (ex_request ''GET'' ''/users/alice'')))"

text \<open>The request context the handler of \<^verbatim>\<open>GET /users/alice\<close> was called with.\<close>

definition ex_alice_params :: Params where
  "ex_alice_params = \<lparr>base = 0, plen = 1\<rparr>"

text \<open>
  Then \<^verbatim>\<open>GET /users/bob\<close> is served while the handler of the first request is still
  running, and the pool hands out the buffer that the first request put back.
\<close>

definition ex_router_after_bob :: ex_Router where
  "ex_router_after_bob =
     snd (projr (ServeHTTP ref_impl (Some 0) ex_router_after_alice
                   (ex_request ''GET'' ''/users/bob'')))"

section \<open>Properties\<close>

subsection \<open>The sort of allowed is sort\<close>

lemma length_sort_inner [simp]: "length (sort_inner a j) = length a"
  by (induction a j rule: sort_inner.induct) auto

lemma insort_snoc_less:
  "sorted (ys @ [y]) \<Longrightarrow> x < y \<Longrightarrow> insort x (ys @ [y]) = insort x ys @ [y]"
  by (induction ys) (auto simp: sorted_append)

lemma insort_snoc_ge:
  assumes "sorted (ys @ [y])" "\<not> x < y"
  shows "insort x (ys @ [y]) = ys @ [y, x]"
proof -
  have "sort (x # (ys @ [y])) = ys @ [y, x]"
    using assms by (intro properties_for_sort) (auto simp: sorted_append)
  moreover have "sort (x # (ys @ [y])) = insort x (ys @ [y])"
    using assms(1) by (simp add: sorted_sort_id)
  ultimately show ?thesis by simp
qed

lemma sort_inner_insort:
  "sorted xs \<Longrightarrow> sort_inner (xs @ x # rest) (length xs) = insort x xs @ rest"
proof (induction xs arbitrary: rest rule: rev_induct)
  case Nil then show ?case by simp
next
  case (snoc y ys)
  have s: "sorted ys" using snoc.prems by (auto simp: sorted_append)
  show ?case
  proof (cases "x < y")
    case True
    have "sort_inner ((ys @ [y]) @ x # rest) (length (ys @ [y]))
        = sort_inner (ys @ x # (y # rest)) (length ys)"
      using True by (simp add: nth_append list_update_append)
    also have "\<dots> = insort x ys @ y # rest" using snoc.IH[OF s] by simp
    finally show ?thesis using insort_snoc_less[OF snoc.prems True] by simp
  next
    case False
    then show ?thesis using insort_snoc_ge[OF snoc.prems False] by (simp add: nth_append)
  qed
qed

lemma sort_outer_sort_aux:
  "sorted xs \<Longrightarrow> l = length xs + length rest \<Longrightarrow>
   sort_outer (xs @ rest) (length xs) l = sort (xs @ rest)"
proof (induction rest arbitrary: xs)
  case Nil
  then show ?case by (simp add: sort_outer.simps sorted_sort_id)
next
  case (Cons x rest)
  have "sort_outer (xs @ x # rest) (length xs) l
      = sort_outer (insort x xs @ rest) (Suc (length xs)) l"
    using Cons.prems by (subst sort_outer.simps) (simp add: sort_inner_insort)
  also have "\<dots> = sort (insort x xs @ rest)"
    using Cons.IH[of "insort x xs"] Cons.prems by (simp add: sorted_insort)
  also have "\<dots> = sort (xs @ x # rest)"
    by (rule properties_for_sort) simp_all
  finally show ?case .
qed

lemma sort_outer_sort: "sort_outer a 1 (length a) = sort a"
proof (cases a)
  case Nil then show ?thesis by (simp add: sort_outer.simps)
next
  case (Cons x xs)
  then show ?thesis using sort_outer_sort_aux[of "[x]" "length a" xs] by simp
qed

subsection \<open>allowed computes the Allow header of the spec\<close>

lemma allowed_finish_sort:
  "allowed_finish al = (if al = [] then [] else strings_Join (sort (al @ [MethodOptions])) '', '')"
  using sort_outer_sort[of "al @ [MethodOptions]"] by (simp add: allowed_finish_def Let_def)

lemma allowed_finish_spec:
  assumes "distinct al" "MethodOptions \<notin> set al"
  shows "allowed_finish al = spec_Allow (set al)"
proof (cases "al = []")
  case True
  then show ?thesis by (simp add: allowed_finish_sort spec_Allow_def)
next
  case False
  have "distinct (al @ [MethodOptions])" using assms by simp
  then have "sort (al @ [MethodOptions]) = sorted_list_of_set (set (al @ [MethodOptions]))"
    by (simp only: sorted_list_of_set_sort_remdups distinct_remdups_id)
  then show ?thesis using False by (simp add: allowed_finish_sort spec_Allow_def)
qed

lemma allowed_global_loop_filter:
  "allowed_global_loop ms al = al @ filter (\<lambda>m. m \<noteq> MethodOptions) ms"
  by (induction ms arbitrary: al) auto

lemma allowed_path_loop_filter:
  "allowed_path_loop X (trees r) path reqMethod ms al =
   al @ filter (\<lambda>m. m \<noteq> reqMethod \<and> m \<noteq> MethodOptions \<and> spec_probe X r path m) ms"
proof (induction ms arbitrary: al)
  case Nil
  then show ?case by simp
next
  case (Cons m ms)
  show ?case
  proof (cases "m = reqMethod \<or> m = MethodOptions")
    case True
    then show ?thesis using Cons.IH by auto
  next
    case False
    show ?thesis
    proof (cases "map_of (trees r) m")
      case None
      then show ?thesis using False Cons.IH by (simp add: spec_probe_def)
    next
      case (Some n)
      obtain route ps tsr where g: "getValue X n path False = (route, ps, tsr)"
        by (cases "getValue X n path False") auto
      show ?thesis using False Some g Cons.IH by (cases route) (simp_all add: spec_probe_def)
    qed
  qed
qed

lemma allowed_path_spec:
  assumes "distinct (map fst (trees r))" "path \<noteq> ''*''"
  shows "allowed X r path reqMethod =
         spec_Allow {m \<in> fst ` set (trees r).
                       m \<noteq> reqMethod \<and> m \<noteq> MethodOptions \<and> spec_probe X r path m}"
proof -
  let ?P = "\<lambda>m. m \<noteq> reqMethod \<and> m \<noteq> MethodOptions \<and> spec_probe X r path m"
  have "allowed X r path reqMethod = allowed_finish (filter ?P (map fst (trees r)))"
    using assms(2) by (simp add: allowed_def allowed_path_loop_filter)
  also have "\<dots> = spec_Allow (set (filter ?P (map fst (trees r))))"
    using assms(1) by (intro allowed_finish_spec) auto
  also have "set (filter ?P (map fst (trees r))) = {m \<in> fst ` set (trees r). ?P m}"
    by auto
  finally show ?thesis .
qed

lemma allowed_global_spec:
  assumes "distinct (map fst (trees r))"
  shows "allowed X r ''*'' [] = spec_Allow (fst ` set (trees r) - {MethodOptions})"
proof -
  let ?P = "\<lambda>m. m \<noteq> MethodOptions"
  have "allowed X r ''*'' [] = allowed_finish (filter ?P (map fst (trees r)))"
    by (simp add: allowed_def allowed_global_loop_filter)
  also have "\<dots> = spec_Allow (set (filter ?P (map fst (trees r))))"
    using assms(1) by (intro allowed_finish_spec) auto
  also have "set (filter ?P (map fst (trees r))) = fst ` set (trees r) - {MethodOptions}"
    by auto
  finally show ?thesis .
qed

lemma spec_Allow_GET_POST: "spec_Allow {''GET'', ''POST''} = ''GET, OPTIONS, POST''"
  by (simp add: spec_Allow_def MethodOptions_def)

subsection \<open>The lookup changes the pool and the buffers only\<close>

lemma getParams_same_routing:
  "getParams pick r = Inr (ps, r1) \<Longrightarrow> same_routing r r1"
  unfolding getParams_def pool_Get_def same_routing_def
  by (auto split: option.splits if_splits prod.splits)

lemma getValue_pooled_same_routing:
  assumes "getValue_pooled X pick r root path = Inr (res, r1)"
  shows "same_routing r r1"
proof -
  obtain route kvs tsr where g: "getValue X root path True = (route, kvs, tsr)"
    by (cases "getValue X root path True") auto
  show ?thesis
  proof (cases kvs)
    case None
    with assms g have "r1 = r" by (simp add: getValue_pooled_def)
    then show ?thesis by (simp add: same_routing_def)
  next
    case (Some ps)
    with assms g obtain a r0 b where gp: "getParams pick r = Inr (a, r0)"
      and r1: "r1 = r0\<lparr>mem := (mem r0)(a := b)\<rparr>"
      by (auto simp: getValue_pooled_def split: sum.splits prod.splits)
    from getParams_same_routing[OF gp] r1 show ?thesis by (simp add: same_routing_def)
  qed
qed

lemma allowed_same_routing:
  "same_routing r r1 \<Longrightarrow> allowed X r1 path reqMethod = allowed X r path reqMethod"
  by (simp add: allowed_def same_routing_def)

lemma ServeHTTP_unrouted_same_routing:
  assumes "same_routing r r1"
  shows "ServeHTTP_unrouted X r1 req = ServeHTTP_unrouted X r req"
proof -
  have "allowed X r1 p m = allowed X r p m" for p m
    by (rule allowed_same_routing[OF assms])
  moreover have "HandleOPTIONS r1 = HandleOPTIONS r" "GlobalOPTIONS r1 = GlobalOPTIONS r"
    "HandleMethodNotAllowed r1 = HandleMethodNotAllowed r"
    "MethodNotAllowed r1 = MethodNotAllowed r" "NotFound r1 = NotFound r"
    using assms by (simp_all add: same_routing_def)
  ultimately show ?thesis
    by (simp add: ServeHTTP_unrouted_def ServeHTTP_404_def Let_def)
qed

lemma ServeHTTP_no_handler:
  assumes root: "map_of (trees r) (Method req) = Some root"
    and look: "getValue_pooled X pick r root (Path (url req)) = Inr ((None, ps, tsr), r1)"
  shows "ServeHTTP X pick r req =
     (if Method req \<noteq> MethodConnect \<and> Path (url req) \<noteq> ''/'' then
        (let code = (if Method req \<noteq> MethodGet then StatusPermanentRedirect
                     else StatusMovedPermanently)
         in if tsr \<and> RedirectTrailingSlash r then
              Inr (http_Redirect ((url req)\<lparr>Path := toggle_slash (Path (url req))\<rparr>) code, r1)
            else if RedirectFixedPath r then
              (case findCaseInsensitivePath X root (CleanPath X (Path (url req)))
                      (RedirectTrailingSlash r) of
                 (fixedPath, True) \<Rightarrow>
                   Inr (http_Redirect ((url req)\<lparr>Path := fixedPath\<rparr>) code, r1)
               | (fixedPath, False) \<Rightarrow> Inr (ServeHTTP_unrouted X r req, r1))
            else Inr (ServeHTTP_unrouted X r req, r1))
      else Inr (ServeHTTP_unrouted X r req, r1))"
proof -
  have s: "same_routing r r1" by (rule getValue_pooled_same_routing[OF look])
  then have "RedirectTrailingSlash r1 = RedirectTrailingSlash r"
       "RedirectFixedPath r1 = RedirectFixedPath r"
    by (simp_all add: same_routing_def)
  moreover have "ServeHTTP_unrouted X r1 req = ServeHTTP_unrouted X r req"
    by (rule ServeHTTP_unrouted_same_routing[OF s])
  ultimately show ?thesis using root look by (simp add: ServeHTTP_def Let_def)
qed

lemma ServeHTTP_handler:
  assumes root: "map_of (trees r) (Method req) = Some root"
    and look: "getValue_pooled X pick r root (Path (url req)) = Inr ((Some route, ps, tsr), r1)"
  shows "\<exists>req' r'. ServeHTTP X pick r req = Inr (Route_ServeHTTP route req', r')"
  using root look by (cases ps) (simp_all add: ServeHTTP_def Let_def)

lemma ServeHTTP_unrouted_not_redirect:
  "ServeHTTP_unrouted X r req \<noteq> http_Redirect u code"
  by (auto simp: ServeHTTP_unrouted_def ServeHTTP_404_def Let_def split: if_splits option.splits)

subsection \<open>Handle keeps the cached header fresh\<close>

lemma Handle_keys:
  assumes "Handle X r method path handler opts = Inr r'"
  shows "(map_of (trees r) method = None \<longrightarrow>
            map fst (trees r') = map fst (trees r) @ [method] \<and>
            globalAllowed r' =
              allowed_finish (allowed_global_loop (map fst (trees r) @ [method]) [])) \<and>
         (map_of (trees r) method \<noteq> None \<longrightarrow>
            map fst (trees r') = map fst (trees r) \<and> globalAllowed r' = globalAllowed r)"
proof (cases "map_of (trees r) method")
  case None
  then have notin: "method \<notin> fst ` set (trees r)" by (simp add: map_of_eq_None_iff)
  from assms None show ?thesis
    unfolding Handle_def Let_def
    by (auto simp: update_keys notin allowed_def split: if_splits sum.splits)
next
  case (Some root)
  then have "method \<in> fst ` set (trees r)" by (metis domI dom_map_of_conv_image_fst)
  then have k: "map fst (AList.update method n (trees r)) = map fst (trees r)" for n
    by (simp add: update_keys)
  from assms Some show ?thesis
    unfolding Handle_def Let_def
    by (auto simp: k split: if_splits sum.splits)
qed


lemma Handle_invariant:
  assumes h: "Handle X r method path handler opts = Inr r'"
    and d: "distinct (map fst (trees r))"
    and g: "globalAllowed r = allowed X r ''*'' []"
  shows "distinct (map fst (trees r')) \<and> globalAllowed r' = allowed X r' ''*'' []"
proof (cases "map_of (trees r) method")
  case None
  then have "method \<notin> set (map fst (trees r))" by (simp add: map_of_eq_None_iff)
  with Handle_keys[OF h] None d show ?thesis by (simp add: allowed_def)
next
  case (Some root)
  with Handle_keys[OF h] d g show ?thesis by (simp add: allowed_def)
qed

lemma Handle_all_invariant:
  "Handle_all X r regs = Inr r' \<Longrightarrow> distinct (map fst (trees r)) \<Longrightarrow>
   globalAllowed r = allowed X r ''*'' [] \<Longrightarrow>
   distinct (map fst (trees r')) \<and> globalAllowed r' = allowed X r' ''*'' []"
proof (induction regs arbitrary: r)
  case Nil
  then show ?case by simp
next
  case (Cons reg regs)
  obtain m p h os where reg: "reg = (m, p, h, os)"
    by (cases reg) auto
  from Cons.prems(1) reg obtain r1 where h: "Handle X r m p h os = Inr r1"
    and rest: "Handle_all X r1 regs = Inr r'"
    by (auto split: sum.splits)
  from Handle_invariant[OF h Cons.prems(2,3)] Cons.IH[OF rest] show ?case by simp
qed

lemma NewRouter_invariant:
  "distinct (map fst (trees NewRouter)) \<and>
   globalAllowed NewRouter = allowed X NewRouter ''*'' []"
  by (simp add: NewRouter_def allowed_def allowed_finish_def)

lemma strings_Join_in_nonempty:
  "x \<in> set xs \<Longrightarrow> x \<noteq> [] \<Longrightarrow> strings_Join xs sep \<noteq> []"
  by (induction xs sep rule: strings_Join.induct) auto

lemma spec_Allow_empty_iff:
  assumes "finite S"
  shows "spec_Allow S = [] \<longleftrightarrow> S = {}"
proof (cases "S = {}")
  case True
  then show ?thesis by (simp add: spec_Allow_def)
next
  case False
  have "finite (insert MethodOptions S)" using assms by simp
  then have "set (sorted_list_of_set (insert MethodOptions S)) = insert MethodOptions S"
    by (rule set_sorted_list_of_set)
  then have "MethodOptions \<in> set (sorted_list_of_set (insert MethodOptions S))"
    by (simp only: insertI1)
  then have "strings_Join (sorted_list_of_set (insert MethodOptions S)) '', '' \<noteq> []"
    by (rule strings_Join_in_nonempty) (simp add: MethodOptions_def)
  with False show ?thesis unfolding spec_Allow_def by (simp only: if_False simp_thms)
qed

subsection \<open>The concrete router, evaluated\<close>

lemmas ref_defs = ref_impl_def ref_addRoute_def ref_newRoute_def ref_countParams_def ref_getValue_def
  ref_findCaseInsensitivePath_def ref_CleanPath_def ref_match.simps ref_conflict.simps
  is_wildcard_def segment_def after_segment_def params_of_def to_lower_def toggle_slash_def
lemmas router_defs = allowed_def allowed_finish_def sort_outer.simps ServeHTTP_unrouted_def
  ServeHTTP_404_def getValue_pooled_def getParams_def pool_Get_def putParams_def append_Param_def
  MethodOptions_def MethodGet_def MethodConnect_def StatusMovedPermanently_def StatusPermanentRedirect_def
  StatusMethodNotAllowed_def StatusText_MethodNotAllowed_def zero_Param_def Let_def

lemma ex_router_eq:
  "ex_router =
   \<lparr>trees =
      [(''GET'', [(''/users/:id'', \<lparr>rt_path = ''/users/:id'', rt_handler = ''showUser'', rt_name = []\<rparr>),
                 (''/Foo'', \<lparr>rt_path = ''/Foo'', rt_handler = ''foo'', rt_name = ''foo''\<rparr>)]),
       (''POST'', [(''/users/:id'', \<lparr>rt_path = ''/users/:id'', rt_handler = ''saveUser'', rt_name = []\<rparr>)]),
       (''CONNECT'', [(''/Tunnel'', \<lparr>rt_path = ''/Tunnel'', rt_handler = ''tunnel'', rt_name = []\<rparr>)])],
    routes = [''foo'' \<mapsto> \<lparr>rt_path = ''/Foo'', rt_handler = ''foo'', rt_name = ''foo''\<rparr>],
    pool_New = True, pool_items = [], maxParams = 1,
    SaveMatchedRoute = False, RedirectTrailingSlash = True, RedirectFixedPath = True,
    HandleMethodNotAllowed = True, HandleOPTIONS = True, GlobalOPTIONS = None,
    globalAllowed = ''CONNECT, GET, OPTIONS, POST'', NotFound = None, MethodNotAllowed = None,
    mem = (\<lambda>_. \<lparr>arr = [], blen = 0\<rparr>), next_addr = 0\<rparr>"
  unfolding ex_router_def ex_registrations_def NewRouter_def
  by (simp add: Handle_def ref_defs router_defs)

lemma ex_after_alice_eq:
  "ServeHTTP ref_impl None ex_router (ex_request ''GET'' ''/users/alice'') =
   Inr (Route_ServeHTTP \<lparr>rt_path = ''/users/:id'', rt_handler = ''showUser'', rt_name = []\<rparr>
          ((ex_request ''GET'' ''/users/alice'')\<lparr>ctx_params := Some ex_alice_params\<rparr>),
        ex_router\<lparr>pool_items := [0],
                  mem := (mem ex_router)(0 := \<lparr>arr = [\<lparr>Key = ''id'', Value = ''alice''\<rparr>], blen = 1\<rparr>),
                  next_addr := 1\<rparr>)"
  unfolding ex_router_eq ex_request_def ex_alice_params_def
  by (simp add: ServeHTTP_def ref_defs router_defs)

lemma ex_Handle_all: "Handle_all ref_impl NewRouter ex_registrations = Inr ex_router"
  unfolding ex_router_eq ex_registrations_def NewRouter_def
  by (simp add: Handle_def ref_defs router_defs)

lemma ex_POST_redirect:
  "ServeHTTP ref_impl None ex_router (ex_request ''POST'' ''/users/7/'') =
   Inr (http_Redirect \<lparr>Path = ''/users/7'', RawQuery = []\<rparr> 308, ex_router)"
  unfolding ex_router_eq ex_request_def
  by (simp add: ServeHTTP_def ref_defs router_defs)




lemma ex_router_after_alice_eq:
  "ex_router_after_alice =
   ex_router\<lparr>pool_items := [0],
             mem := (mem ex_router)(0 := \<lparr>arr = [\<lparr>Key = ''id'', Value = ''alice''\<rparr>], blen = 1\<rparr>),
             next_addr := 1\<rparr>"
  by (simp add: ex_router_after_alice_def ex_after_alice_eq)

lemma ex_getParams:
  "getParams (Some 0) ex_router_after_alice =
   Inr (0, ex_router\<lparr>pool_items := [],
             mem := (mem ex_router)(0 := \<lparr>arr = [\<lparr>Key = ''id'', Value = ''alice''\<rparr>], blen = 0\<rparr>),
             next_addr := 1\<rparr>)"
  unfolding ex_router_after_alice_eq by (simp add: getParams_def pool_Get_def)

lemma ex_after_bob_eq:
  "ServeHTTP ref_impl (Some 0) ex_router_after_alice (ex_request ''GET'' ''/users/bob'') =
   Inr (Route_ServeHTTP \<lparr>rt_path = ''/users/:id'', rt_handler = ''showUser'', rt_name = []\<rparr>
          ((ex_request ''GET'' ''/users/bob'')\<lparr>ctx_params := Some \<lparr>base = 0, plen = 1\<rparr>\<rparr>),
        ex_router\<lparr>pool_items := [0],
                  mem := (mem ex_router)(0 := \<lparr>arr = [\<lparr>Key = ''id'', Value = ''bob''\<rparr>], blen = 1\<rparr>),
                  next_addr := 1\<rparr>)"
  unfolding ex_router_after_alice_eq unfolding ex_router_eq ex_request_def
  by (simp add: ServeHTTP_def ref_defs router_defs)

subsection \<open>Redirects\<close>

text \<open>
  C1. When the trie of the request's method has no handler for the path but reports the
  trailing-slash hint, trailing-slash redirection is enabled, the method is not CONNECT
  and the path is not \<open>/\<close>, \<open>ServeHTTP\<close> redirects to the path with its trailing slash
  toggled: removed when the path is longer than one byte and ends in \<open>/\<close>, appended
  otherwise.
\<close>

theorem ServeHTTP_trailing_slash_redirect:
  assumes "map_of (trees r) (Method req) = Some root"
    and "getValue_pooled X pick r root (Path (url req)) = Inr ((None, ps, True), r1)"
    and "RedirectTrailingSlash r"
    and "Method req \<noteq> ''CONNECT''"
    and "Path (url req) \<noteq> ''/''"
  shows "ServeHTTP X pick r req =
         Inr (http_Redirect
                ((url req)\<lparr>Path :=
                   (if length (Path (url req)) > 1 \<and> last (Path (url req)) = CHR ''/''
                    then butlast (Path (url req)) else Path (url req) @ ''/'')\<rparr>)
                (if Method req = ''GET'' then 301 else 308), r1)"
  using assms(3-5) unfolding ServeHTTP_no_handler[OF assms(1,2)]
  by (simp add: MethodConnect_def MethodGet_def toggle_slash_def
      StatusPermanentRedirect_def StatusMovedPermanently_def)

theorem ServeHTTP_trailing_slash_redirect_witness:
  "map_of (trees ex_router) ''GET'' \<noteq> None \<and>
   ServeHTTP ref_impl None ex_router (ex_request ''GET'' ''/Foo/'') =
   Inr (http_Redirect \<lparr>Path = ''/Foo'', RawQuery = []\<rparr> 301, ex_router)"
proof -
  let ?req = "ex_request ''GET'' ''/Foo/''"
  let ?root = "[(''/users/:id'', \<lparr>rt_path = ''/users/:id'', rt_handler = ''showUser'', rt_name = []\<rparr>),
                (''/Foo'', \<lparr>rt_path = ''/Foo'', rt_handler = ''foo'', rt_name = ''foo''\<rparr>)]"
  have h1: "map_of (trees ex_router) (Method ?req) = Some ?root"
    by (simp add: ex_router_eq ex_request_def)
  have h2: "getValue_pooled ref_impl None ex_router ?root (Path (url ?req)) =
            Inr ((None, None, True), ex_router)"
    by (simp add: ex_request_def getValue_pooled_def ref_defs)
  have h3: "RedirectTrailingSlash ex_router" by (simp add: ex_router_eq)
  have h4: "Method ?req \<noteq> ''CONNECT''" "Path (url ?req) \<noteq> ''/''"
    by (simp_all add: ex_request_def)
  show ?thesis
    using ServeHTTP_trailing_slash_redirect[OF h1 h2 h3 h4] h1
    by (simp add: ex_request_def)
qed

text \<open>
  C2. Every redirect that \<open>ServeHTTP\<close> issues, the trailing-slash one and the fixed-path one
  alike, has status 301 when the request method is GET and 308 for every other method.
\<close>

theorem ServeHTTP_redirect_status:
  assumes "ServeHTTP X pick r req = Inr (http_Redirect u code, r')"
  shows "code = (if Method req = ''GET'' then 301 else 308)"
proof (cases "map_of (trees r) (Method req)")
  case None
  then have "ServeHTTP X pick r req = Inr (ServeHTTP_unrouted X r req, r)"
    by (simp add: ServeHTTP_def)
  with assms show ?thesis by (auto simp: ServeHTTP_unrouted_not_redirect)
next
  case (Some root)
  show ?thesis
  proof (cases "getValue_pooled X pick r root (Path (url req))")
    case (Inl e)
    with Some assms show ?thesis by (simp add: ServeHTTP_def)
  next
    case (Inr p)
    obtain route ps tsr r1 where p: "p = ((route, ps, tsr), r1)" by (cases p) auto
    show ?thesis
    proof (cases route)
      case None
      from assms ServeHTTP_unrouted_not_redirect[of X r req u code] show ?thesis
        unfolding ServeHTTP_no_handler[OF Some Inr[unfolded p None]]
        by (auto simp: Let_def MethodGet_def StatusPermanentRedirect_def StatusMovedPermanently_def
            split: if_splits prod.splits bool.splits)
    next
      case (Some rt)
      from ServeHTTP_handler[OF \<open>map_of (trees r) (Method req) = Some root\<close> Inr[unfolded p Some]] assms
      show ?thesis by auto
    qed
  qed
qed

theorem ServeHTTP_redirect_status_witness:
  "ServeHTTP ref_impl None ex_router (ex_request ''POST'' ''/users/7/'') =
   Inr (http_Redirect \<lparr>Path = ''/users/7'', RawQuery = []\<rparr> 308, ex_router) \<and>
   (308::nat) = (if Method (ex_request ''POST'' ''/users/7/'') = ''GET'' then 301 else 308)"
  using ServeHTTP_redirect_status[OF ex_POST_redirect] ex_POST_redirect by simp

text \<open>
  C5, as the code has it. When the trie of the request's method has no handler for the path,
  the trailing-slash redirect is not taken, fixed-path redirection is enabled, and moreover
  the method is not CONNECT and the path is not \<open>/\<close>, \<open>ServeHTTP\<close> cleans the path, runs
  the case-insensitive lookup on the cleaned path, and on success redirects to the
  corrected path, with 301 for GET and 308 otherwise.
\<close>

theorem ServeHTTP_fixed_path_redirect:
  assumes "map_of (trees r) (Method req) = Some root"
    and "getValue_pooled X pick r root (Path (url req)) = Inr ((None, ps, tsr), r1)"
    and "\<not> (tsr \<and> RedirectTrailingSlash r)"
    and "RedirectFixedPath r"
    and "Method req \<noteq> ''CONNECT''"
    and "Path (url req) \<noteq> ''/''"
    and "findCaseInsensitivePath X root (CleanPath X (Path (url req))) (RedirectTrailingSlash r)
         = (fixedPath, True)"
  shows "ServeHTTP X pick r req =
         Inr (http_Redirect ((url req)\<lparr>Path := fixedPath\<rparr>)
                (if Method req = ''GET'' then 301 else 308), r1)"
  using assms(3-7) unfolding ServeHTTP_no_handler[OF assms(1,2)]
  by (auto simp: MethodConnect_def MethodGet_def
      StatusPermanentRedirect_def StatusMovedPermanently_def)

theorem ServeHTTP_fixed_path_redirect_witness:
  "ServeHTTP ref_impl None ex_router (ex_request ''GET'' ''/foo'') =
   Inr (http_Redirect \<lparr>Path = ''/Foo'', RawQuery = []\<rparr> 301, ex_router)"
proof -
  let ?req = "ex_request ''GET'' ''/foo''"
  let ?root = "[(''/users/:id'', \<lparr>rt_path = ''/users/:id'', rt_handler = ''showUser'', rt_name = []\<rparr>),
                (''/Foo'', \<lparr>rt_path = ''/Foo'', rt_handler = ''foo'', rt_name = ''foo''\<rparr>)]"
  have h1: "map_of (trees ex_router) (Method ?req) = Some ?root"
    by (simp add: ex_router_eq ex_request_def)
  have h2: "getValue_pooled ref_impl None ex_router ?root (Path (url ?req)) =
            Inr ((None, None, False), ex_router)"
    by (simp add: ex_request_def getValue_pooled_def ref_defs)
  have h3: "\<not> (False \<and> RedirectTrailingSlash ex_router)" by simp
  have h4: "RedirectFixedPath ex_router" by (simp add: ex_router_eq)
  have h5: "Method ?req \<noteq> ''CONNECT''" "Path (url ?req) \<noteq> ''/''"
    by (simp_all add: ex_request_def)
  have h6: "findCaseInsensitivePath ref_impl ?root (CleanPath ref_impl (Path (url ?req)))
              (RedirectTrailingSlash ex_router) = (''/Foo'', True)"
    by (simp add: ex_request_def ref_defs)
  show ?thesis
    using ServeHTTP_fixed_path_redirect[OF h1 h2 h3 h4 h5 h6]
    by (simp add: ex_request_def)
qed

text \<open>
  Without the two extra conditions the statement fails: for a CONNECT request the lookup
  finds no handler, the corrector would succeed, and yet no redirect is sent.
\<close>

theorem ServeHTTP_fixed_path_CONNECT_counterexample:
  "map_of (trees ex_router) (Method (ex_request ''CONNECT'' ''/tunnel'')) =
     Some [(''/Tunnel'', \<lparr>rt_path = ''/Tunnel'', rt_handler = ''tunnel'', rt_name = []\<rparr>)] \<and>
   getValue_pooled ref_impl None ex_router
     [(''/Tunnel'', \<lparr>rt_path = ''/Tunnel'', rt_handler = ''tunnel'', rt_name = []\<rparr>)]
     (Path (url (ex_request ''CONNECT'' ''/tunnel''))) = Inr ((None, None, False), ex_router) \<and>
   RedirectFixedPath ex_router \<and>
   findCaseInsensitivePath ref_impl
     [(''/Tunnel'', \<lparr>rt_path = ''/Tunnel'', rt_handler = ''tunnel'', rt_name = []\<rparr>)]
     (CleanPath ref_impl (Path (url (ex_request ''CONNECT'' ''/tunnel''))))
     (RedirectTrailingSlash ex_router) = (''/Tunnel'', True) \<and>
   ServeHTTP ref_impl None ex_router (ex_request ''CONNECT'' ''/tunnel'') =
     Inr (http_NotFound, ex_router)"
  unfolding ex_router_eq ex_request_def
  by (simp add: ServeHTTP_def ref_defs router_defs)

subsection \<open>405 and 404\<close>







subsection \<open>The Allow header\<close>

text \<open>
  C3. For a path other than \<open>*\<close>, \<open>allowed\<close> probes the trie of each registered method
  with the exact lookup of the path, leaving out the request's method and OPTIONS; when
  some method matches, the result is those methods and OPTIONS, ascending, joined by comma
  and space, and it is the empty string exactly when none matches. A path registered under
  GET and POST only, asked for with DELETE, gives \<open>GET, OPTIONS, POST\<close>.
\<close>

theorem allowed_specific_path:
  assumes "distinct (map fst (trees r))" and "path \<noteq> ''*''"
  shows "allowed X r path reqMethod =
           spec_Allow {m \<in> fst ` set (trees r).
                         m \<noteq> reqMethod \<and> m \<noteq> ''OPTIONS'' \<and> spec_probe X r path m} \<and>
         (allowed X r path reqMethod = [] \<longleftrightarrow>
            {m \<in> fst ` set (trees r).
               m \<noteq> reqMethod \<and> m \<noteq> ''OPTIONS'' \<and> spec_probe X r path m} = {}) \<and>
         ({m \<in> fst ` set (trees r). m \<noteq> ''OPTIONS'' \<and> spec_probe X r path m} = {''GET'', ''POST''}
            \<longrightarrow> allowed X r path ''DELETE'' = ''GET, OPTIONS, POST'')"
proof (intro conjI impI)
  let ?S = "\<lambda>rm. {m \<in> fst ` set (trees r). m \<noteq> rm \<and> m \<noteq> ''OPTIONS'' \<and> spec_probe X r path m}"
  have eq: "allowed X r path rm = spec_Allow (?S rm)" for rm
    using allowed_path_spec[OF assms, of X rm] by (simp only: MethodOptions_def)
  show "allowed X r path reqMethod = spec_Allow (?S reqMethod)" by (rule eq)
  have fin: "finite (?S reqMethod)" by simp
  show "(allowed X r path reqMethod = []) = (?S reqMethod = {})"
    unfolding eq by (rule spec_Allow_empty_iff[OF fin])
  assume a: "{m \<in> fst ` set (trees r). m \<noteq> ''OPTIONS'' \<and> spec_probe X r path m} = {''GET'', ''POST''}"
  have "?S ''DELETE'' = {m \<in> {m \<in> fst ` set (trees r). m \<noteq> ''OPTIONS'' \<and> spec_probe X r path m}.
                            m \<noteq> ''DELETE''}"
    by blast
  also have "\<dots> = {''GET'', ''POST''}" unfolding a by auto
  finally show "allowed X r path ''DELETE'' = ''GET, OPTIONS, POST''"
    unfolding eq by (simp only: spec_Allow_GET_POST)
qed

theorem allowed_specific_path_witness:
  "distinct (map fst (trees ex_router)) \<and>
   {m \<in> fst ` set (trees ex_router). m \<noteq> ''OPTIONS'' \<and> spec_probe ref_impl ex_router ''/users/9'' m}
     = {''GET'', ''POST''} \<and>
   allowed ref_impl ex_router ''/users/9'' ''DELETE'' = ''GET, OPTIONS, POST''"
proof -
  have d: "distinct (map fst (trees ex_router))" by (simp add: ex_router_eq)
  have p: "''/users/9'' \<noteq> ''*''" by simp
  have pr: "spec_probe ref_impl ex_router ''/users/9'' ''GET''"
    "spec_probe ref_impl ex_router ''/users/9'' ''POST''"
    "\<not> spec_probe ref_impl ex_router ''/users/9'' ''CONNECT''"
    by (simp_all add: spec_probe_def ex_router_eq ref_defs Let_def)
  have k: "fst ` set (trees ex_router) = {''GET'', ''POST'', ''CONNECT''}"
    by (simp add: ex_router_eq)
  have s: "{m \<in> fst ` set (trees ex_router).
              m \<noteq> ''OPTIONS'' \<and> spec_probe ref_impl ex_router ''/users/9'' m} = {''GET'', ''POST''}"
    unfolding k using pr by auto
  from allowed_specific_path[OF d p, of ref_impl "''DELETE''", THEN conjunct2, THEN conjunct2,
      THEN mp, OF s]
  have "allowed ref_impl ex_router ''/users/9'' ''DELETE'' = ''GET, OPTIONS, POST''" .
  with d s show ?thesis by simp
qed

text \<open>
  C4. After any sequence of registrations on a new router, the cached header
  \<open>globalAllowed\<close> is what \<open>allowed\<close> computes afresh for \<open>*\<close> from the current tries: the
  registered methods other than OPTIONS, with OPTIONS when there is one, ascending and
  joined by comma and space. For \<open>*\<close> and a non-empty method \<open>allowed\<close> answers with the
  cached value, whatever the tries contain; and a registration under a method that has a
  trie already leaves the cache as it is.
\<close>

theorem globalAllowed_is_fresh:
  fixes X :: "('node, 'route, 'h, 'opt) externals"
  assumes "Handle_all X NewRouter regs = Inr r"
  shows "globalAllowed r = allowed X r ''*'' [] \<and>
         globalAllowed r = spec_Allow (fst ` set (trees r) - {''OPTIONS''}) \<and>
         (\<forall>(X' :: ('node, 'route, 'h, 'opt) externals) m.
            m \<noteq> [] \<longrightarrow> allowed X' r ''*'' m = globalAllowed r) \<and>
         (\<forall>method path handler opts r'.
            map_of (trees r) method \<noteq> None \<and> Handle X r method path handler opts = Inr r'
            \<longrightarrow> globalAllowed r' = globalAllowed r)"
proof -
  from Handle_all_invariant[OF assms conjunct1[OF NewRouter_invariant]
      conjunct2[OF NewRouter_invariant]]
  have d: "distinct (map fst (trees r))" and g: "globalAllowed r = allowed X r ''*'' []"
    by simp_all
  have k: "globalAllowed r' = globalAllowed r"
    if "map_of (trees r) m \<noteq> None" "Handle X r m p h os = Inr r'"
    for m p h os r'
    using Handle_keys[OF that(2)] that(1) by simp
  have c: "allowed X' r ''*'' m = globalAllowed r" if "m \<noteq> []" for X' :: "('node, 'route, 'h, 'opt) externals" and m
    using that by (simp add: allowed_def)
  from g allowed_global_spec[OF d, of X]
  have "globalAllowed r = spec_Allow (fst ` set (trees r) - {''OPTIONS''})"
    by (simp add: MethodOptions_def)
  with g c k show ?thesis by blast
qed

theorem globalAllowed_is_fresh_witness:
  "Handle_all ref_impl NewRouter ex_registrations = Inr ex_router \<and>
   globalAllowed ex_router = ''CONNECT, GET, OPTIONS, POST'' \<and>
   allowed ref_impl ex_router ''*'' [] = ''CONNECT, GET, OPTIONS, POST'' \<and>
   allowed ref_impl ex_router ''*'' ''OPTIONS'' = ''CONNECT, GET, OPTIONS, POST''"
proof -
  have g: "globalAllowed ex_router = ''CONNECT, GET, OPTIONS, POST''"
    by (simp add: ex_router_eq)
  note f = globalAllowed_is_fresh[OF ex_Handle_all]
  have a: "allowed ref_impl ex_router ''*'' [] = ''CONNECT, GET, OPTIONS, POST''"
    using f[THEN conjunct1] g by simp
  have "''OPTIONS'' \<noteq> [] \<longrightarrow>
        allowed ref_impl ex_router ''*'' ''OPTIONS'' = globalAllowed ex_router"
    using f[THEN conjunct2, THEN conjunct2, THEN conjunct1] by blast
  then have b: "allowed ref_impl ex_router ''*'' ''OPTIONS'' = ''CONNECT, GET, OPTIONS, POST''"
    using g by simp
  from ex_Handle_all g a b show ?thesis by simp
qed

subsection \<open>Registration\<close>

text \<open>
  C7, as the code has it. A registration that breaks a precondition panics, it does not
  return an error. \<open>Handle\<close> itself panics exactly when the method is empty, or the path
  does not begin with \<open>/\<close>, or the route built from the options has a name that is
  registered already; \<open>HandleFunc\<close> panics on a nil function and is \<open>Handle\<close> otherwise.
  When none of the three conditions holds, the registration goes through exactly when the
  insertion into the trie does.
\<close>

theorem Handle_panics:
  "((\<exists>e. Handle X r meth path handler opts = Inl (Router_panic e)) \<longleftrightarrow>
      meth = [] \<or> path = [] \<or> hd path \<noteq> CHR ''/'' \<or>
      (route_name X (newRoute X path handler opts) \<noteq> [] \<and>
       route_name X (newRoute X path handler opts) \<in> dom (routes r))) \<and>
   HandleFunc X r meth path None opts = Inl (Router_panic ''handle must not be nil'') \<and>
   HandleFunc X r meth path (Some handler) opts = Handle X r meth path handler opts \<and>
   (meth \<noteq> [] \<and> path \<noteq> [] \<and> hd path = CHR ''/'' \<and>
    \<not> (route_name X (newRoute X path handler opts) \<noteq> [] \<and>
       route_name X (newRoute X path handler opts) \<in> dom (routes r)) \<longrightarrow>
      ((\<exists>r'. Handle X r meth path handler opts = Inr r') \<longleftrightarrow>
       (\<exists>n. addRoute X
               (case map_of (trees r) meth of None \<Rightarrow> new_node X | Some root \<Rightarrow> root) path
               (newRoute X path handler opts) = Inr n)))"
proof (intro conjI impI)
  let ?route = "newRoute X path handler opts"
  let ?dup = "route_name X ?route \<noteq> [] \<and> route_name X ?route \<in> dom (routes r)"
  show "(\<exists>e. Handle X r meth path handler opts = Inl (Router_panic e)) \<longleftrightarrow>
        meth = [] \<or> path = [] \<or> hd path \<noteq> CHR ''/'' \<or> ?dup"
    unfolding Handle_def Let_def
    by (cases "map_of (trees r) meth") (auto split: sum.splits)
  show "HandleFunc X r meth path None opts = Inl (Router_panic ''handle must not be nil'')"
    by (simp add: HandleFunc_def)
  show "HandleFunc X r meth path (Some handler) opts = Handle X r meth path handler opts"
    by (simp add: HandleFunc_def)
  assume "meth \<noteq> [] \<and> path \<noteq> [] \<and> hd path = CHR ''/'' \<and> \<not> ?dup"
  then show "(\<exists>r'. Handle X r meth path handler opts = Inr r') \<longleftrightarrow>
       (\<exists>n. addRoute X
               (case map_of (trees r) meth of None \<Rightarrow> new_node X | Some root \<Rightarrow> root) path
               ?route = Inr n)"
    unfolding Handle_def Let_def
    by (cases "map_of (trees r) meth") (auto split: sum.splits)
qed

theorem Handle_panics_witness:
  "(\<exists>e. Handle ref_impl ex_router ''GET'' ''/bar'' ''bar'' [RouteName ''foo''] =
        Inl (Router_panic e)) \<and>
   (\<exists>r'. Handle ref_impl ex_router ''GET'' ''/bar'' ''bar'' [] = Inr r') \<and>
   HandleFunc ref_impl ex_router ''GET'' ''/bar'' None [] =
     Inl (Router_panic ''handle must not be nil'')"
proof -
  note t1 = Handle_panics[where X = ref_impl and r = ex_router and meth = "''GET''"
      and path = "''/bar''" and handler = "''bar''" and opts = "[RouteName ''foo'']"]
  note t2 = Handle_panics[where X = ref_impl and r = ex_router and meth = "''GET''"
      and path = "''/bar''" and handler = "''bar''" and opts = "[]"]
  have d1: "route_name ref_impl (newRoute ref_impl ''/bar'' ''bar'' [RouteName ''foo'']) \<noteq> [] \<and>
            route_name ref_impl (newRoute ref_impl ''/bar'' ''bar'' [RouteName ''foo''])
              \<in> dom (routes ex_router)"
    by (simp add: ref_defs ex_router_eq)
  from t1[THEN conjunct1] d1
  have c1: "\<exists>e. Handle ref_impl ex_router ''GET'' ''/bar'' ''bar'' [RouteName ''foo''] =
                Inl (Router_panic e)" by blast
  have pre: "''GET'' \<noteq> [] \<and> ''/bar'' \<noteq> [] \<and> hd ''/bar'' = CHR ''/'' \<and>
     \<not> (route_name ref_impl (newRoute ref_impl ''/bar'' ''bar'' []) \<noteq> [] \<and>
        route_name ref_impl (newRoute ref_impl ''/bar'' ''bar'' []) \<in> dom (routes ex_router))"
    by (simp add: ref_defs)
  have add: "\<exists>n. addRoute ref_impl
               (case map_of (trees ex_router) ''GET'' of None \<Rightarrow> new_node ref_impl
                | Some root \<Rightarrow> root) ''/bar'' (newRoute ref_impl ''/bar'' ''bar'' []) = Inr n"
    by (simp add: ref_defs ex_router_eq)
  from t2[THEN conjunct2, THEN conjunct2, THEN conjunct2, THEN mp, OF pre] add
  have c2: "\<exists>r'. Handle ref_impl ex_router ''GET'' ''/bar'' ''bar'' [] = Inr r'" by blast
  from c1 c2 t2[THEN conjunct2, THEN conjunct1] show ?thesis by blast
qed

text \<open>
  With the first two conditions alone the statement fails: a registration with a
  non-empty method, a path that begins with \<open>/\<close>, a handler, and a trie that accepts
  the path panics in \<open>Handle\<close> because the route's name is taken.
\<close>

theorem Handle_duplicate_name_counterexample:
  "''GET'' \<noteq> [] \<and> hd ''/bar'' = CHR ''/'' \<and>
   addRoute ref_impl (the (map_of (trees ex_router) ''GET'')) ''/bar''
     (newRoute ref_impl ''/bar'' ''bar'' [RouteName ''foo'']) =
     Inr (the (map_of (trees ex_router) ''GET'') @
          [(''/bar'', \<lparr>rt_path = ''/bar'', rt_handler = ''bar'', rt_name = ''foo''\<rparr>)]) \<and>
   Handle ref_impl ex_router ''GET'' ''/bar'' ''bar'' [RouteName ''foo''] =
     Inl (Router_panic ''route name foo is already registered'')"
  unfolding ex_router_eq
  by (simp add: Handle_def ref_defs router_defs)

subsection \<open>The parameter buffers\<close>

text \<open>
  C8. A buffer that \<open>getParams\<close> hands out has length zero, whatever the pool held and
  whatever was stored in the buffer before, so a Params value of that length shows no
  element; and \<open>getParams\<close> does hand out a buffer whenever the pool's \<open>New\<close> is set.
\<close>

theorem getParams_length_zero:
  "(getParams pick r = Inr (ps, r') \<longrightarrow>
      blen (mem r' ps) = 0 \<and> elems (mem r') \<lparr>base = ps, plen = blen (mem r' ps)\<rparr> = []) \<and>
   (pool_New r \<longrightarrow> (\<exists>ps r'. getParams pick r = Inr (ps, r')))"
  unfolding getParams_def pool_Get_def elems_def
  by (auto split: option.splits if_splits prod.splits)

theorem getParams_length_zero_witness:
  "pool_New ex_router_after_alice \<and>
   mem ex_router_after_alice 0 = \<lparr>arr = [\<lparr>Key = ''id'', Value = ''alice''\<rparr>], blen = 1\<rparr> \<and>
   getParams (Some 0) ex_router_after_alice =
     Inr (0, ex_router\<lparr>pool_items := [],
               mem := (mem ex_router)
                 (0 := \<lparr>arr = [\<lparr>Key = ''id'', Value = ''alice''\<rparr>], blen = 0\<rparr>),
               next_addr := 1\<rparr>) \<and>
   blen (mem (ex_router\<lparr>pool_items := [],
               mem := (mem ex_router)
                 (0 := \<lparr>arr = [\<lparr>Key = ''id'', Value = ''alice''\<rparr>], blen = 0\<rparr>),
               next_addr := 1\<rparr>) 0) = 0"
proof -
  have n: "pool_New ex_router_after_alice"
    and m: "mem ex_router_after_alice 0 = \<lparr>arr = [\<lparr>Key = ''id'', Value = ''alice''\<rparr>], blen = 1\<rparr>"
    by (simp_all add: ex_router_after_alice_eq ex_router_eq)
  from getParams_length_zero[where pick = "Some 0" and r = ex_router_after_alice,
      THEN conjunct1, THEN mp, OF ex_getParams] n m ex_getParams
  show ?thesis by simp
qed

text \<open>
  Whenever the lookup has filled a buffer for the route it found, that buffer is in the
  pool again at the moment the route's handler is called.
\<close>

lemma ServeHTTP_releases_before_handler:
  assumes "map_of (trees r) (Method req) = Some root"
    and "getValue X root (Path (url req)) True = (Some route, Some kvs, tsr)"
    and "ServeHTTP X pick r req = Inr (resp, r')"
  shows "\<exists>req' ps. resp = Route_ServeHTTP route req' \<and> ctx_params req' = Some ps \<and>
                   base ps \<in> set (pool_items r')"
  using assms
  by (auto simp: ServeHTTP_def getValue_pooled_def putParams_def Let_def
      split: sum.splits prod.splits if_splits)

text \<open>
  C9. The claim is that a request in flight never sees the parameters of another one. The
  code puts the buffer back into the pool before it calls the route's handler, and the
  Params value in the request context shares the buffer's array. So when a second request
  is served while the handler of the first is still running and the pool hands out the
  buffer just put back, the first handler reads the second request's value: here the
  handler of \<^verbatim>\<open>GET /users/alice\<close> is called with a Params value that shows \<open>alice\<close>, its
  buffer is in the pool, and once \<^verbatim>\<open>GET /users/bob\<close> has been dispatched the same value
  shows \<open>bob\<close>.
\<close>

theorem ServeHTTP_params_overwritten:
  "ServeHTTP ref_impl None ex_router (ex_request ''GET'' ''/users/alice'') =
     Inr (Route_ServeHTTP \<lparr>rt_path = ''/users/:id'', rt_handler = ''showUser'', rt_name = []\<rparr>
            ((ex_request ''GET'' ''/users/alice'')\<lparr>ctx_params := Some ex_alice_params\<rparr>),
          ex_router_after_alice) \<and>
   Params_Get (elems (mem ex_router_after_alice) ex_alice_params) ''id'' = ''alice'' \<and>
   base ex_alice_params \<in> set (pool_items ex_router_after_alice) \<and>
   ServeHTTP ref_impl (Some 0) ex_router_after_alice (ex_request ''GET'' ''/users/bob'') =
     Inr (Route_ServeHTTP \<lparr>rt_path = ''/users/:id'', rt_handler = ''showUser'', rt_name = []\<rparr>
            ((ex_request ''GET'' ''/users/bob'')\<lparr>ctx_params := Some \<lparr>base = 0, plen = 1\<rparr>\<rparr>),
          ex_router_after_bob) \<and>
   Params_Get (elems (mem ex_router_after_bob) ex_alice_params) ''id'' = ''bob''"
proof -
  have a: "ex_router_after_bob =
           ex_router\<lparr>pool_items := [0],
             mem := (mem ex_router)(0 := \<lparr>arr = [\<lparr>Key = ''id'', Value = ''bob''\<rparr>], blen = 1\<rparr>),
             next_addr := 1\<rparr>"
    by (simp add: ex_router_after_bob_def ex_after_bob_eq)
  have "Params_Get (elems (mem ex_router_after_alice) ex_alice_params) ''id'' = ''alice''"
    "base ex_alice_params \<in> set (pool_items ex_router_after_alice)"
    by (simp_all add: ex_router_after_alice_eq elems_def ex_alice_params_def)
  moreover have "Params_Get (elems (mem ex_router_after_bob) ex_alice_params) ''id'' = ''bob''"
    by (simp add: a elems_def ex_alice_params_def)
  ultimately show ?thesis
    using ex_after_alice_eq ex_after_bob_eq
    by (simp add: a ex_router_after_alice_eq)
qed

subsection \<open>Lookup\<close>


lemma Lookup_no_pool:
  assumes "\<not> pool_New r" "pool_items r = []"
    and "Lookup X pick r meth path = Inr ((rt, ps, tsr), r')"
  shows "ps = None"
  using assms
  by (auto simp: Lookup_def getValue_pooled_def getParams_def pool_Get_def
      split: option.splits sum.splits prod.splits if_splits)

text \<open>
  Registrations of patterns that \<open>countParams\<close> counts as free of wildcards leave the router
  without \<^verbatim>\<open>New\<close> and without buffers, so whatever the trie does, a \<open>Lookup\<close> that returns
  on such a router returns nil Params.
\<close>

lemma Handle_no_pool:
  assumes "Handle X r m p h os = Inr r'"
    and "\<not> pool_New r" "maxParams r = 0" "pool_items r = []" "countParams X p = 0"
  shows "\<not> pool_New r' \<and> maxParams r' = 0 \<and> pool_items r' = []"
  using assms unfolding Handle_def Let_def
  by (cases "map_of (trees r) m") (auto split: if_splits sum.splits)

lemma Handle_all_no_pool:
  "Handle_all X r regs = Inr r' \<Longrightarrow> \<not> pool_New r \<Longrightarrow> maxParams r = 0 \<Longrightarrow>
   pool_items r = [] \<Longrightarrow> \<forall>reg \<in> set regs. countParams X (fst (snd reg)) = 0 \<Longrightarrow>
   \<not> pool_New r' \<and> maxParams r' = 0 \<and> pool_items r' = []"
proof (induction regs arbitrary: r)
  case Nil
  then show ?case by simp
next
  case (Cons reg regs)
  obtain m p h os where reg: "reg = (m, p, h, os)" by (cases reg) auto
  from Cons.prems(1) reg obtain r1 where h: "Handle X r m p h os = Inr r1"
    and rest: "Handle_all X r1 regs = Inr r'"
    by (auto split: sum.splits)
  from Cons.prems(5) reg have c: "countParams X p = 0"
    and cs: "\<forall>reg \<in> set regs. countParams X (fst (snd reg)) = 0" by simp_all
  from Handle_no_pool[OF h Cons.prems(2-4) c]
  have "\<not> pool_New r1" "maxParams r1 = 0" "pool_items r1 = []" by simp_all
  from Cons.IH[OF rest this cs] show ?case .
qed

lemma Lookup_nil_without_wildcards:
  assumes "Handle_all X NewRouter regs = Inr r"
    and "\<forall>reg \<in> set regs. countParams X (fst (snd reg)) = 0"
    and "Lookup X pick r meth path = Inr ((rt, ps, tsr), r')"
  shows "ps = None"
proof -
  have "\<not> pool_New r \<and> maxParams r = 0 \<and> pool_items r = []"
    by (rule Handle_all_no_pool[OF assms(1) _ _ _ assms(2)]) (simp_all add: NewRouter_def)
  then show ?thesis using Lookup_no_pool[OF _ _ assms(3)] by simp
qed





text \<open>A route with a wildcard segment, for comparison: the Params is not nil.\<close>

lemma ex_Lookup_alice:
  "Lookup ref_impl None ex_router ''GET'' ''/users/alice'' =
   Inr ((Some \<lparr>rt_path = ''/users/:id'', rt_handler = ''showUser'', rt_name = []\<rparr>,
         Some \<lparr>base = 0, plen = 1\<rparr>, False),
        ex_router\<lparr>mem := (mem ex_router)(0 := \<lparr>arr = [\<lparr>Key = ''id'', Value = ''alice''\<rparr>], blen = 1\<rparr>),
                  next_addr := 1\<rparr>)"
  unfolding ex_router_eq
  by (simp add: Lookup_def ref_defs router_defs)

end
